theory Spec2Isabelle
  imports Complex_Main "HOL-Library.Log_Nat"
begin

section \<open>Time To Interactive: the audit of \<^verbatim>\<open>lighthouse-core/audits/time-to-interactive.js\<close>\<close>

text \<open>
  The audit fuses the first meaningful paint with the 85 percent mark of the visual
  progress, scans forward in steps of 50 ms for a 500 ms window with a low estimated
  input latency, and maps the instant found to a score through a log-normal curve.
\<close>

subsection \<open>Numbers\<close>

text \<open>
  A JavaScript number is a binary64 value. The model keeps the finite values as real
  numbers and makes the rounding of the source's arithmetic explicit: every \<^verbatim>\<open>+\<close>,
  \<^verbatim>\<open>-\<close> and \<^verbatim>\<open>*\<close> of the source is an operation of the record \<open>arith\<close>, and the
  properties below are proved for every such record unless they name one. Comparisons,
  \<^verbatim>\<open>Math.max\<close>, \<^verbatim>\<open>Math.min\<close>, \<^verbatim>\<open>Math.round\<close> and \<^verbatim>\<open>toFixed\<close> do not round
  their argument: they are exact functions of the value they are given.
\<close>

record arith =
  fadd :: "real \<Rightarrow> real \<Rightarrow> real"
  fsub :: "real \<Rightarrow> real \<Rightarrow> real"
  fmul :: "real \<Rightarrow> real \<Rightarrow> real"

text \<open>
  The arithmetic of the language: the exact result rounded to the nearest number with a
  significand of 53 bits, to the one with an even significand on a tie. Overflow and
  subnormal numbers are left out; milliseconds of a page load are far from both.
\<close>

definition round_even :: "real \<Rightarrow> int" where
  "round_even x =
     (let f = \<lfloor>x\<rfloor>; d = x - of_int f
      in if d < 1 / 2 then f else if 1 / 2 < d then f + 1 else if even f then f else f + 1)"

text \<open>The exponent \<open>e\<close> of a positive number: \<open>2\<^sup>e \<le> x < 2\<^sup>e\<^sup>+\<^sup>1\<close>.\<close>

definition expo :: "real \<Rightarrow> int" where
  "expo x = (if 1 \<le> x then bitlen \<lfloor>x\<rfloor> - 1 else - bitlen (\<lceil>1 / x\<rceil> - 1))"

definition pow2 :: "int \<Rightarrow> real" where
  "pow2 e = (if 0 \<le> e then 2 ^ nat e else 1 / 2 ^ nat (- e))"

definition fl :: "real \<Rightarrow> real" where
  "fl x =
     (if x = 0 then 0
      else of_int (round_even (x / pow2 (expo \<bar>x\<bar> - 52))) * pow2 (expo \<bar>x\<bar> - 52))"

definition binary64 :: arith where
  "binary64 =
     \<lparr>fadd = (\<lambda>x y. fl (x + y)), fsub = (\<lambda>x y. fl (x - y)), fmul = (\<lambda>x y. fl (x * y))\<rparr>"

subsection \<open>Number formatting\<close>

text \<open>
  \<^verbatim>\<open>x.toFixed(d)\<close> yields the decimal string with \<open>d\<close> fraction digits closest to
  \<open>x\<close>, the larger magnitude on a tie, the sign first. The model keeps the decimal
  number the string denotes. The source uses such a string in a display, in a comparison
  with the threshold 50 (where reading the string back as a number cannot move it across
  50) and as the argument of the distribution, which receives the string. (From a
  magnitude of \<open>10\<^sup>2\<^sup>1\<close> on \<^verbatim>\<open>toFixed\<close> prints the number unrounded; times and
  latencies in milliseconds stay far below.)
\<close>

definition toFixed :: "nat \<Rightarrow> real \<Rightarrow> real" where
  "toFixed d x =
     (if x < 0 then - (of_int \<lfloor>(- x) * 10 ^ d + 1 / 2\<rfloor> / 10 ^ d)
      else of_int \<lfloor>x * 10 ^ d + 1 / 2\<rfloor> / 10 ^ d)"

text \<open>\<^verbatim>\<open>Math.round\<close>: the closest integer, the larger one on a tie.\<close>

definition Math_round :: "real \<Rightarrow> int" where
  "Math_round x = \<lfloor>x + 1 / 2\<rfloor>"

subsection \<open>Data\<close>

text \<open>The result of the first-meaningful-paint audit, as far as this audit reads it.\<close>

record fmp_timings =
  fMPfull :: real
  navStart :: real

record fmp_result =
  fmp_value :: real
  fmp_rawValue :: real  \<comment> \<open>the number \<^verbatim>\<open>parseFloat\<close> reads from \<^verbatim>\<open>rawValue\<close>\<close>
  fmp_debugString :: string
  fmp_timings :: fmp_timings  \<comment> \<open>\<^verbatim>\<open>extendedInfo.timings\<close>\<close>

text \<open>One speedline frame, after the \<^verbatim>\<open>map\<close> of lines 76 to 81.\<close>

record frame =
  progress :: real
  time :: real

text \<open>\<^verbatim>\<open>currentLatency\<close> starts as \<^verbatim>\<open>Infinity\<close> and then holds formatted latencies.\<close>

datatype latency = Infinity | Finite real

fun latency_gt :: "latency \<Rightarrow> real \<Rightarrow> bool" where
  "latency_gt Infinity t = True"
| "latency_gt (Finite x) t = (x > t)"

text \<open>An entry of \<^verbatim>\<open>foundLatencies\<close> (lines 110 to 113).\<close>

record observation =
  obs_startTime :: real  \<comment> \<open>\<^verbatim>\<open>startTime.toFixed(1)\<close>\<close>
  obs_estLatency :: real  \<comment> \<open>\<^verbatim>\<open>latencies[0].time.toFixed(2)\<close>\<close>

text \<open>Errors that reach the \<^verbatim>\<open>catch\<close> of line 150.\<close>

datatype js_error =
  TypeError string  \<comment> \<open>reading a property of \<^verbatim>\<open>undefined\<close>\<close>
| Rejected string  \<comment> \<open>a rejection of the upstream promise\<close>

datatype debug = Message string | Thrown js_error

record timings_info =
  ti_fMP :: real
  ti_visuallyReady :: real
  ti_mainThreadAvail :: real

record extended_info =
  ei_timings :: timings_info
  expectedLatencyAtTTI :: latency
  ei_foundLatencies :: "observation list"

datatype raw_value =
  RawNumber int
| RawMs real  \<comment> \<open>the template string of line 146: the number followed by \<^verbatim>\<open>ms\<close>\<close>

record audit_result =
  score :: int
  rawValue :: raw_value
  optimalValue :: string
  debugString :: "debug option"
  extendedInfo :: "extended_info option"

text \<open>
  What the promise of \<^verbatim>\<open>audit\<close> resolves to; \<open>StillSearching\<close> stands for a loop that
  has not come to an end within the number of passes looked at.
\<close>

datatype outcome = ReturnedUndefined | Returned audit_result | StillSearching

text \<open>The calls to the external estimator and distribution, in the order made.\<close>

datatype ext_call =
  GetRiskToResponsiveness real real
| ComputeComplementaryPercentile real

subsection \<open>Result assembly\<close>

definition meta_optimalValue :: string where
  "meta_optimalValue = ''TBD''"

text \<open>
  Modelled from the spec: \<^verbatim>\<open>Audit.generateAuditResult\<close> of the base class, which is not
  part of the audit's file. The result record of the spec carries the \<^verbatim>\<open>value\<close> it is
  given as the score and the other fields unchanged.
\<close>

definition generateAuditResult ::
  "int \<Rightarrow> raw_value \<Rightarrow> string \<Rightarrow> debug option \<Rightarrow> extended_info option \<Rightarrow> audit_result" where
  "generateAuditResult v raw opt dbg ext =
     \<lparr>score = v, rawValue = raw, optimalValue = opt, debugString = dbg, extendedInfo = ext\<rparr>"

text \<open>Lines 159 to 166.\<close>

definition generateError :: "debug \<Rightarrow> audit_result" where
  "generateError err =
     generateAuditResult (- 1) (RawNumber (- 1)) meta_optimalValue (Some err) None"

subsection \<open>Signal fusion (lines 82 to 89)\<close>

definition visuallyReady :: "frame list \<Rightarrow> real \<Rightarrow> frame option" where
  "visuallyReady visualProgress fMPts =
     find (\<lambda>frame. time frame \<ge> fMPts \<and> progress frame \<ge> 85) visualProgress"

subsection \<open>Responsiveness window search (lines 89 to 117)\<close>

record search_state =
  startTime :: real
  currentLatency :: latency
  foundLatencies :: "observation list"
  queries :: "(real \<times> real) list"  \<comment> \<open>the windows handed to the estimator so far\<close>

datatype loop_exit = Exhausted | Found | OutOfFuel

definition threshold :: real where
  "threshold = 50"

text \<open>
  The \<^verbatim>\<open>while\<close> loop. \<open>est s e\<close> is \<^verbatim>\<open>latencies[0].time\<close> of
  \<^verbatim>\<open>getRiskToResponsiveness(model, traceContents, s, e, [0.9])\<close>. \<open>Exhausted\<close> is the
  bare \<^verbatim>\<open>return\<close> of line 104, \<open>Found\<close> the exit through the loop condition. With
  rounded sums nothing bounds the number of passes (a start time of \<open>10\<^sup>2\<^sup>0\<close> is not
  moved by adding 50), so the loop is given a number of passes it may make, and
  \<open>OutOfFuel\<close> is the state after that many passes of a loop that would go on.
\<close>

fun tti_loop ::
  "arith \<Rightarrow> (real \<Rightarrow> real \<Rightarrow> real) \<Rightarrow> real \<Rightarrow> nat \<Rightarrow> search_state \<Rightarrow> loop_exit \<times> search_state" where
  "tti_loop ops est endOfTraceTime 0 st =
     (if latency_gt (currentLatency st) threshold then (OutOfFuel, st) else (Found, st))"
| "tti_loop ops est endOfTraceTime (Suc fuel) st =
     (if latency_gt (currentLatency st) threshold then
        (let startTime' = fadd ops (startTime st) 50;
             endTime = fadd ops startTime' 500
         in if endTime > endOfTraceTime then (Exhausted, st\<lparr>startTime := startTime'\<rparr>)
            else
              (let estLatency = toFixed 2 (est startTime' endTime)
               in tti_loop ops est endOfTraceTime fuel
                    \<lparr>startTime = startTime',
                     currentLatency = Finite estLatency,
                     foundLatencies = foundLatencies st @
                       [\<lparr>obs_startTime = toFixed 1 startTime', obs_estLatency = estLatency\<rparr>],
                     queries = queries st @ [(startTime', endTime)]\<rparr>))
      else (Found, st))"

declare tti_loop.simps [simp del]

text \<open>Lines 89 to 94: the state in which the loop is entered.\<close>

definition initial_search :: "arith \<Rightarrow> real \<Rightarrow> real \<Rightarrow> search_state" where
  "initial_search ops fmpTiming visuallyReadyTiming =
     \<lparr>startTime = fsub ops (max fmpTiming visuallyReadyTiming) 50,
      currentLatency = Infinity,
      foundLatencies = [],
      queries = []\<rparr>"

subsection \<open>Score normalization (lines 124 to 131)\<close>

text \<open>
  \<open>ccdf\<close> is \<^verbatim>\<open>computeComplementaryPercentile\<close> of the distribution that
  \<^verbatim>\<open>getLogNormalDistribution(5000, 1700)\<close> returns; the distribution itself belongs to
  the tracing processor and is a parameter here.
\<close>

definition scoreOf :: "arith \<Rightarrow> (real \<Rightarrow> real) \<Rightarrow> real \<Rightarrow> int" where
  "scoreOf ops ccdf timeToInteractive =
     (let score = fmul ops 100 (ccdf timeToInteractive);
          score = min 100 score;
          score = max 0 score
      in Math_round score)"

subsection \<open>The audit (lines 58 to 153)\<close>

text \<open>
  What follows the loop: the bare \<^verbatim>\<open>return\<close> of line 104 when the trace is exhausted,
  lines 118 to 149 when a window was found. The second component lists the external
  calls made, in order.
\<close>

definition audit_finish ::
  "arith \<Rightarrow> real \<Rightarrow> real \<Rightarrow> (real \<Rightarrow> real) \<Rightarrow> loop_exit \<times> search_state
     \<Rightarrow> outcome \<times> ext_call list" where
  "audit_finish ops fmpTiming visuallyReadyTiming ccdf r =
     (case r of
        (Exhausted, st) \<Rightarrow>
          (ReturnedUndefined, map (\<lambda>(s, e). GetRiskToResponsiveness s e) (queries st))
      | (OutOfFuel, st) \<Rightarrow>
          (StillSearching, map (\<lambda>(s, e). GetRiskToResponsiveness s e) (queries st))
      | (Found, st) \<Rightarrow>
          (let timeToInteractive = toFixed 1 (startTime st);
               score = scoreOf ops ccdf timeToInteractive;
               extendedInfo =
                 \<lparr>ei_timings =
                    \<lparr>ti_fMP = toFixed 1 fmpTiming,
                     ti_visuallyReady = toFixed 1 visuallyReadyTiming,
                     ti_mainThreadAvail = toFixed 1 (startTime st)\<rparr>,
                  expectedLatencyAtTTI = currentLatency st,
                  ei_foundLatencies = foundLatencies st\<rparr>
           in (Returned
                 (generateAuditResult score (RawMs timeToInteractive) meta_optimalValue None
                    (Some extendedInfo)),
               map (\<lambda>(s, e). GetRiskToResponsiveness s e) (queries st) @
                 [ComputeComplementaryPercentile timeToInteractive])))"

text \<open>
  \<open>fmp\<close> is what the promise of \<^verbatim>\<open>FMPMetric.audit(artifacts)\<close> settles to,
  \<open>endOfTraceTime\<close> is \<^verbatim>\<open>model.bounds.max\<close>, \<open>visualProgress\<close> the mapped speedline
  frames, \<open>fuel\<close> the number of passes the loop may make. Reading \<^verbatim>\<open>time\<close> of an absent
  frame throws, and the \<^verbatim>\<open>catch\<close> of line 150 turns what is thrown into an error result.
  The trace processor, the estimator and the distribution are taken to return finite
  numbers and not to throw.
\<close>

definition audit ::
  "arith \<Rightarrow> nat \<Rightarrow> js_error + fmp_result \<Rightarrow> real \<Rightarrow> frame list \<Rightarrow> (real \<Rightarrow> real \<Rightarrow> real)
     \<Rightarrow> (real \<Rightarrow> real) \<Rightarrow> outcome \<times> ext_call list" where
  "audit ops fuel fmp endOfTraceTime visualProgress est ccdf =
     (case fmp of
        Inl err \<Rightarrow> (Returned (generateError (Thrown err)), [])
      | Inr fmpResult \<Rightarrow>
          if fmp_value fmpResult = - 1
          then (Returned (generateError (Message (fmp_debugString fmpResult))), [])
          else
            (let fmpTiming = fmp_rawValue fmpResult;
                 timings = fmp_timings fmpResult;
                 fMPts = fadd ops (fMPfull timings) (navStart timings)
             in case visuallyReady visualProgress fMPts of
                  None \<Rightarrow> (Returned (generateError (Thrown (TypeError ''time''))), [])
                | Some ready \<Rightarrow>
                    (let visuallyReadyTiming = fsub ops (time ready) (navStart timings)
                     in audit_finish ops fmpTiming visuallyReadyTiming ccdf
                          (tti_loop ops est endOfTraceTime fuel
                             (initial_search ops fmpTiming visuallyReadyTiming)))))"

subsection \<open>Notions for stating the properties\<close>

text \<open>The log entry the loop body appends for a window.\<close>

definition observe :: "(real \<Rightarrow> real \<Rightarrow> real) \<Rightarrow> real \<times> real \<Rightarrow> observation" where
  "observe est w =
     \<lparr>obs_startTime = toFixed 1 (fst w), obs_estLatency = toFixed 2 (est (fst w) (snd w))\<rparr>"

text \<open>One pass through the loop body when the window fits into the trace.\<close>

definition query_window ::
  "arith \<Rightarrow> (real \<Rightarrow> real \<Rightarrow> real) \<Rightarrow> search_state \<Rightarrow> search_state" where
  "query_window ops est st =
     \<lparr>startTime = fadd ops (startTime st) 50,
      currentLatency =
        Finite (toFixed 2 (est (fadd ops (startTime st) 50)
                  (fadd ops (fadd ops (startTime st) 50) 500))),
      foundLatencies =
        foundLatencies st @
          [observe est (fadd ops (startTime st) 50, fadd ops (fadd ops (startTime st) 50) 500)],
      queries =
        queries st @ [(fadd ops (startTime st) 50, fadd ops (fadd ops (startTime st) 50) 500)]\<rparr>"

text \<open>A paint result and speedline frames in the shape of the end-to-end scenarios.\<close>

definition paintA :: fmp_result where
  "paintA =
     \<lparr>fmp_value = 90, fmp_rawValue = 2000, fmp_debugString = [],
      fmp_timings = \<lparr>fMPfull = 2000, navStart = 1000\<rparr>\<rparr>"

definition framesA :: "frame list" where
  "framesA = [\<lparr>progress = 50, time = 2500\<rparr>, \<lparr>progress = 85, time = 3100\<rparr>]"

text \<open>Frames of which none is both late enough and complete enough for \<open>paintA\<close>.\<close>

definition framesLate :: "frame list" where
  "framesLate = [\<lparr>progress = 90, time = 2900\<rparr>, \<lparr>progress = 60, time = 3500\<rparr>]"

text \<open>
  A paint at 2000.7 ms and a frame at 3000.7 ms, each the number the language reads
  from that decimal; neither is a binary fraction, so sums with them round.
\<close>

definition paintB :: fmp_result where
  "paintB =
     \<lparr>fmp_value = 90, fmp_rawValue = fl (20007 / 10), fmp_debugString = [],
      fmp_timings = \<lparr>fMPfull = fl (20007 / 10), navStart = 1000\<rparr>\<rparr>"

definition framesB :: "frame list" where
  "framesB = [\<lparr>progress = 85, time = fl (30007 / 10)\<rparr>]"

section \<open>Properties\<close>

subsection \<open>The arithmetic of the language\<close>

text \<open>Rounding to a double keeps the order and the sign.\<close>

lemma pow2_powi: "pow2 e = 2 powi e"
  by (simp add: pow2_def power_int_def power_inverse field_simps)

lemma pow2_pos [simp]: "0 < pow2 e"
  by (simp add: pow2_powi)

lemma pow2_mono: "a \<le> b \<Longrightarrow> pow2 a \<le> pow2 b"
  by (simp add: pow2_powi power_int_increasing)

lemma pow2_add: "pow2 (a + b) = pow2 a * pow2 b"
  by (simp add: pow2_powi power_int_add)

lemma pow2_nat: "0 \<le> e \<Longrightarrow> pow2 e = 2 ^ nat e"
  by (simp add: pow2_def)

lemma expo_bounds:
  assumes "0 < x"
  shows "pow2 (expo x) \<le> x \<and> x < pow2 (expo x + 1)"
proof (cases "1 \<le> x")
  case True
  let ?n = "\<lfloor>x\<rfloor>"
  from True have n: "0 < ?n" by simp
  from bitlen_bounds[OF n] have lo: "2 ^ nat (bitlen ?n - 1) \<le> ?n" and hi: "?n < 2 ^ nat (bitlen ?n)"
    by simp_all
  from n have b: "1 \<le> bitlen ?n"
    by (simp add: bitlen_alt_def)
  have l: "(2::real) ^ nat (bitlen ?n - 1) \<le> x"
    using lo by (simp add: le_floor_iff)
  have h: "x < (2::real) ^ nat (bitlen ?n)"
    using hi by (simp add: floor_less_iff)
  from True b l h show ?thesis
    by (simp add: expo_def pow2_nat)
next
  case False
  with assms have x: "0 < x" "x < 1" by simp_all
  let ?y = "1 / x"
  let ?m = "\<lceil>?y\<rceil> - 1"
  from x have y: "1 < ?y" by simp
  then have m: "0 < ?m" by linarith
  from bitlen_bounds[OF m] have lo: "2 ^ nat (bitlen ?m - 1) \<le> ?m" and hi: "?m < 2 ^ nat (bitlen ?m)"
    by simp_all
  from m have b: "1 \<le> bitlen ?m"
    by (simp add: bitlen_alt_def)
  from lo have "2 ^ nat (bitlen ?m - 1) < \<lceil>?y\<rceil>" by simp
  then have l: "(2::real) ^ nat (bitlen ?m - 1) < ?y"
    by (simp add: less_ceiling_iff)
  from hi have "\<lceil>?y\<rceil> \<le> 2 ^ nat (bitlen ?m)" by simp
  then have h: "?y \<le> (2::real) ^ nat (bitlen ?m)"
    by (simp add: ceiling_le_iff)
  from h x have lower: "1 / 2 ^ nat (bitlen ?m) \<le> x"
    by (simp add: field_simps)
  from l x have upper: "x < 1 / 2 ^ nat (bitlen ?m - 1)"
    by (simp add: field_simps)
  have e: "expo x = - bitlen ?m"
    using False by (simp add: expo_def)
  have p1: "pow2 (expo x) = 1 / 2 ^ nat (bitlen ?m)"
    using b by (simp add: e pow2_def)
  have p2: "pow2 (expo x + 1) = 1 / 2 ^ nat (bitlen ?m - 1)"
  proof (cases "bitlen ?m = 1")
    case True
    then show ?thesis by (simp add: e pow2_def)
  next
    case False
    with b have "1 < bitlen ?m" by simp
    then have "\<not> 0 \<le> - bitlen ?m + 1" "nat (- (- bitlen ?m + 1)) = nat (bitlen ?m - 1)"
      by simp_all
    then show ?thesis by (simp add: e pow2_def)
  qed
  from lower upper show ?thesis
    unfolding p1 p2 by simp
qed


lemma round_even_cases:
  "round_even x = \<lfloor>x\<rfloor> \<and> x - of_int \<lfloor>x\<rfloor> \<le> 1 / 2 \<or>
   round_even x = \<lfloor>x\<rfloor> + 1 \<and> 1 / 2 \<le> x - of_int \<lfloor>x\<rfloor>"
  by (simp add: round_even_def Let_def)

lemma round_even_of_int [simp]: "round_even (of_int n) = n"
  by (simp add: round_even_def)

lemma round_even_mono:
  assumes "x \<le> y"
  shows "round_even x \<le> round_even y"
proof (cases "\<lfloor>x\<rfloor> = \<lfloor>y\<rfloor>")
  case False
  with assms have "\<lfloor>x\<rfloor> < \<lfloor>y\<rfloor>"
    by (simp add: floor_mono order.strict_iff_order)
  moreover have "round_even x \<le> \<lfloor>x\<rfloor> + 1"
    using round_even_cases[of x] by auto
  moreover have "\<lfloor>y\<rfloor> \<le> round_even y"
    using round_even_cases[of y] by auto
  ultimately show ?thesis by linarith
next
  case True
  show ?thesis
  proof (cases "x - of_int \<lfloor>x\<rfloor> < 1 / 2")
    case lt: True
    then have "round_even x = \<lfloor>x\<rfloor>"
      by (simp add: round_even_def Let_def)
    moreover have "\<lfloor>y\<rfloor> \<le> round_even y"
      using round_even_cases[of y] by auto
    ultimately show ?thesis using True by simp
  next
    case ge: False
    show ?thesis
    proof (cases "x = y")
      case True
      then show ?thesis by simp
    next
      case False
      with assms have "x < y" by simp
      with ge True have "1 / 2 < y - of_int \<lfloor>y\<rfloor>" by simp
      then have "round_even y = \<lfloor>y\<rfloor> + 1"
        by (simp add: round_even_def Let_def)
      moreover have "round_even x \<le> \<lfloor>x\<rfloor> + 1"
        using round_even_cases[of x] by auto
      ultimately show ?thesis using True by simp
    qed
  qed
qed

lemma fl_eq:
  "x \<noteq> 0 \<Longrightarrow> fl x = of_int (round_even (x / pow2 (expo \<bar>x\<bar> - 52))) * pow2 (expo \<bar>x\<bar> - 52)"
  by (simp add: fl_def)

lemma pow2_52: "pow2 e = 2 ^ 52 * pow2 (e - 52)"
proof -
  have "pow2 e = pow2 (52 + (e - 52))" by simp
  also have "\<dots> = pow2 52 * pow2 (e - 52)" by (rule pow2_add)
  also have "pow2 52 = 2 ^ 52" by (simp add: pow2_def)
  finally show ?thesis .
qed

lemma pow2_53: "pow2 (e + 1) = 2 ^ 53 * pow2 (e - 52)"
proof -
  have "e + 1 = 53 + (e - 52)" by simp
  then have "pow2 (e + 1) = pow2 (53 + (e - 52))" by (rule arg_cong)
  also have "\<dots> = pow2 53 * pow2 (e - 52)" by (rule pow2_add)
  also have "pow2 53 = 2 ^ 53" by (simp add: pow2_def)
  finally show ?thesis .
qed

lemma fl_bounds_pos:
  assumes "0 < x"
  shows "pow2 (expo x) \<le> fl x \<and> fl x \<le> pow2 (expo x + 1)"
proof -
  let ?p = "pow2 (expo x - 52)"
  have p: "0 < ?p" by simp
  from expo_bounds[OF assms] have "2 ^ 52 * ?p \<le> x" "x < 2 ^ 53 * ?p"
    using pow2_52[of "expo x"] pow2_53[of "expo x"] by simp_all
  then have "of_int (2 ^ 52) \<le> x / ?p" "x / ?p \<le> of_int (2 ^ 53)"
    using p by (simp_all add: field_simps)
  then have "round_even (of_int (2 ^ 52)) \<le> round_even (x / ?p)"
    "round_even (x / ?p) \<le> round_even (of_int (2 ^ 53))"
    by (simp_all only: round_even_mono)
  then have "2 ^ 52 \<le> round_even (x / ?p)" "round_even (x / ?p) \<le> 2 ^ 53"
    unfolding round_even_of_int by simp_all
  then have "real_of_int (2 ^ 52) \<le> of_int (round_even (x / ?p))"
    "real_of_int (round_even (x / ?p)) \<le> of_int (2 ^ 53)"
    by (simp_all only: of_int_le_iff)
  then have "2 ^ 52 * ?p \<le> of_int (round_even (x / ?p)) * ?p"
    "of_int (round_even (x / ?p)) * ?p \<le> 2 ^ 53 * ?p"
    using p by simp_all
  moreover have "fl x = of_int (round_even (x / ?p)) * ?p"
    using assms by (simp add: fl_eq)
  ultimately show ?thesis
    using pow2_52[of "expo x"] pow2_53[of "expo x"] by simp
qed

lemma round_even_uminus: "round_even (- x) = - round_even x"
proof (cases "x = of_int \<lfloor>x\<rfloor>")
  case True
  then obtain n where "x = of_int n" ..
  then have "- x = of_int (- n)" by simp
  then show ?thesis
    unfolding \<open>x = of_int n\<close> by (simp only: round_even_of_int)
next
  case False
  then have "\<lceil>x\<rceil> = \<lfloor>x\<rfloor> + 1"
    by (simp add: ceiling_altdef)
  moreover have "\<lfloor>- x\<rfloor> = - \<lceil>x\<rceil>"
    by (simp add: ceiling_def)
  ultimately have fl: "\<lfloor>- x\<rfloor> = - \<lfloor>x\<rfloor> - 1"
    by simp
  let ?d = "x - of_int \<lfloor>x\<rfloor>"
  have d: "- x - of_int \<lfloor>- x\<rfloor> = 1 - ?d"
    by (simp add: fl)
  have ev: "even (- \<lfloor>x\<rfloor> - 1) \<longleftrightarrow> odd \<lfloor>x\<rfloor>"
    by simp
  show ?thesis
    unfolding round_even_def Let_def d fl ev
    by (auto simp: not_less)
qed

lemma fl_uminus: "fl (- x) = - fl x"
  by (simp add: fl_def round_even_uminus)

lemma fl_mono_pos:
  assumes "0 < x" "x \<le> y"
  shows "fl x \<le> fl y"
proof -
  from assms have y: "0 < y" by simp
  have le: "expo x \<le> expo y"
  proof (rule ccontr)
    assume "\<not> expo x \<le> expo y"
    then have "expo y + 1 \<le> expo x" by simp
    then have "pow2 (expo y + 1) \<le> pow2 (expo x)" by (rule pow2_mono)
    with expo_bounds[OF assms(1)] expo_bounds[OF y] assms(2) show False by linarith
  qed
  show ?thesis
  proof (cases "expo x = expo y")
    case True
    let ?p = "pow2 (expo y - 52)"
    have "x / ?p \<le> y / ?p"
      using assms(2) by (rule divide_right_mono) (simp add: less_imp_le)
    then have "round_even (x / ?p) \<le> round_even (y / ?p)"
      by (rule round_even_mono)
    then have "real_of_int (round_even (x / ?p)) * ?p \<le> real_of_int (round_even (y / ?p)) * ?p"
      by simp
    with assms(1) y True show ?thesis by (simp add: fl_eq)
  next
    case False
    with le have "expo x + 1 \<le> expo y" by simp
    then have "pow2 (expo x + 1) \<le> pow2 (expo y)" by (rule pow2_mono)
    with fl_bounds_pos[OF assms(1)] fl_bounds_pos[OF y] show ?thesis by linarith
  qed
qed

lemma fl_nonneg: "0 \<le> x \<Longrightarrow> 0 \<le> fl x"
proof (cases "x = 0")
  case True
  then show ?thesis by (simp add: fl_def)
next
  case False
  assume "0 \<le> x"
  with False have "0 < x" by simp
  from fl_bounds_pos[OF this] pow2_pos[of "expo x"] show ?thesis by linarith
qed

lemma fl_mono: "x \<le> y \<Longrightarrow> fl x \<le> fl y"
proof -
  assume le: "x \<le> y"
  consider "0 < x" | "y < 0" | "x \<le> 0" "0 \<le> y" by linarith
  then show ?thesis
  proof cases
    case 1
    then show ?thesis using le by (rule fl_mono_pos)
  next
    case 2
    then have "0 < - y" "- y \<le> - x" using le by simp_all
    then have "fl (- y) \<le> fl (- x)" by (rule fl_mono_pos)
    then show ?thesis by (simp add: fl_uminus)
  next
    case 3
    then have "0 \<le> fl (- x)" "0 \<le> fl y" by (simp_all add: fl_nonneg)
    then show ?thesis by (simp add: fl_uminus)
  qed
qed

text \<open>It is off by at most one part in \<open>2\<^sup>5\<^sup>3\<close>.\<close>

lemma round_even_close: "\<bar>of_int (round_even z) - z\<bar> \<le> 1 / 2"
  using round_even_cases[of z] by (auto simp: abs_le_iff)

lemma fl_error: "\<bar>fl x - x\<bar> \<le> \<bar>x\<bar> / 2 ^ 53"
proof (cases "x = 0")
  case True
  then show ?thesis by (simp add: fl_def)
next
  case False
  let ?p = "pow2 (expo \<bar>x\<bar> - 52)"
  have p: "0 < ?p" by simp
  from p have pz: "?p \<noteq> 0" by linarith
  have "fl x - x = (of_int (round_even (x / ?p)) - x / ?p) * ?p"
    using False pz by (simp add: fl_eq field_simps)
  moreover have "\<bar>?p\<bar> = ?p"
    using p by (simp only: abs_of_pos)
  ultimately have "\<bar>fl x - x\<bar> = \<bar>of_int (round_even (x / ?p)) - x / ?p\<bar> * ?p"
    by (simp only: abs_mult)
  also have "\<dots> \<le> (1 / 2) * ?p"
    using round_even_close[of "x / ?p"] by (intro mult_right_mono) (simp_all add: less_imp_le)
  finally have half: "\<bar>fl x - x\<bar> \<le> ?p / 2" by simp
  from False have "0 < \<bar>x\<bar>" by simp
  from expo_bounds[OF this] have "2 ^ 52 * ?p \<le> \<bar>x\<bar>"
    using pow2_52[of "expo \<bar>x\<bar>"] by simp
  then have "?p / 2 \<le> \<bar>x\<bar> / 2 ^ 53" by simp
  with half show ?thesis by linarith
qed

lemma binary64_add_50_accurate:
  assumes "\<bar>s\<bar> \<le> 10 ^ 12"
  shows "\<bar>fadd binary64 s 50 - (s + 50)\<bar> < 1 / 10"
proof -
  have "\<bar>s + 50\<bar> \<le> 10 ^ 12 + 50"
    using assms by linarith
  then have "\<bar>s + 50\<bar> / 2 ^ 53 \<le> (10 ^ 12 + 50) / 2 ^ 53"
    by (simp add: divide_right_mono)
  also have "\<dots> < (1::real) / 10" by simp
  finally show ?thesis
    using fl_error[of "s + 50"] by (simp add: binary64_def)
qed

text \<open>Whole numbers up to \<open>2\<^sup>5\<^sup>3\<close> are not rounded.\<close>

lemma fl_of_int:
  assumes "\<bar>n\<bar> \<le> 2 ^ 53"
  shows "fl (of_int n) = of_int n"
proof (cases "n = 0")
  case True
  then show ?thesis by (simp add: fl_def)
next
  case False
  let ?x = "real_of_int n"
  let ?a = "\<bar>?x\<bar>"
  let ?e = "expo ?a"
  from False have "1 \<le> \<bar>n\<bar>" by simp
  then have "real_of_int 1 \<le> real_of_int \<bar>n\<bar>" by (simp only: of_int_le_iff)
  then have a1: "1 \<le> ?a" by simp
  then have a0: "0 < ?a" by linarith
  from assms have "real_of_int \<bar>n\<bar> \<le> real_of_int (2 ^ 53)" by (simp only: of_int_le_iff)
  then have a53: "?a \<le> 2 ^ 53" by simp
  note b = expo_bounds[OF a0]
  have e0: "0 \<le> ?e"
  proof (rule ccontr)
    assume "\<not> 0 \<le> ?e"
    then have "?e + 1 \<le> 0" by simp
    then have "pow2 (?e + 1) \<le> pow2 0" by (rule pow2_mono)
    with b a1 show False by (simp add: pow2_def)
  qed
  have e53: "?e \<le> 53"
  proof (rule ccontr)
    assume "\<not> ?e \<le> 53"
    then have "54 \<le> ?e" by simp
    then have "pow2 54 \<le> pow2 ?e" by (rule pow2_mono)
    with b a53 show False by (simp add: pow2_def)
  qed
  have x0: "?x \<noteq> 0" using False by simp
  show ?thesis
  proof (cases "?e \<le> 52")
    case True
    let ?k = "nat (52 - ?e)"
    have p: "pow2 (?e - 52) = 1 / 2 ^ ?k"
    proof (cases "?e = 52")
      case True
      then show ?thesis by (simp add: pow2_def)
    next
      case False
      with \<open>?e \<le> 52\<close> have "\<not> 0 \<le> ?e - 52" "nat (- (?e - 52)) = ?k" by simp_all
      then show ?thesis by (simp add: pow2_def)
    qed
    have "?x / pow2 (?e - 52) = of_int (n * 2 ^ ?k)"
      unfolding p by simp
    then have "round_even (?x / pow2 (?e - 52)) = n * 2 ^ ?k"
      by (simp only: round_even_of_int)
    then show ?thesis
      unfolding fl_eq[OF x0] p by simp
  next
    case False
    with e53 have e: "?e = 53" by simp
    from b have "2 ^ 53 \<le> ?a"
      unfolding e by (simp add: pow2_def)
    with a53 have a: "?a = 2 ^ 53" by simp
    have p: "pow2 (?e - 52) = 2"
      unfolding e by (simp add: pow2_def)
    from a have "?x = 2 ^ 53 \<or> ?x = - (2 ^ 53)"
      by (cases "?x < 0") simp_all
    then have "?x / 2 = of_int (2 ^ 52) \<or> ?x / 2 = of_int (- (2 ^ 52))"
      by auto
    then have "of_int (round_even (?x / 2)) = ?x / 2"
      by (metis round_even_of_int)
    then show ?thesis
      unfolding fl_eq[OF x0] p by simp
  qed
qed

lemma binary64_round_trip:
  assumes "\<bar>n\<bar> \<le> 2 ^ 52"
  shows "fadd binary64 (fsub binary64 (of_int n) 50) 50 = of_int n"
proof -
  have "\<bar>n - 50\<bar> \<le> 2 ^ 53" using assms by simp
  then have "fl (of_int (n - 50)) = of_int (n - 50)" by (rule fl_of_int)
  then have sub: "fl (of_int n - 50) = of_int n - 50" by simp
  have "\<bar>n\<bar> \<le> 2 ^ 53" using assms by simp
  then have "fl (of_int n) = of_int n" by (rule fl_of_int)
  with sub show ?thesis by (simp add: binary64_def)
qed

subsection \<open>Rounding to one decimal\<close>

lemma round_tenth_close:
  fixes y :: real
  shows "y - 1 / 20 < of_int \<lfloor>y * 10 + 1 / 2\<rfloor> / 10 \<and> of_int \<lfloor>y * 10 + 1 / 2\<rfloor> / 10 \<le> y + 1 / 20"
proof -
  have "y * 10 + 1 / 2 - 1 < of_int \<lfloor>y * 10 + 1 / 2\<rfloor>" by linarith
  moreover have "of_int \<lfloor>y * 10 + 1 / 2\<rfloor> \<le> y * 10 + 1 / 2" by linarith
  ultimately show ?thesis by (simp add: field_simps)
qed

lemma toFixed1_close: "x - 1 / 20 \<le> toFixed 1 x \<and> toFixed 1 x \<le> x + 1 / 20"
proof (cases "x < 0")
  case True
  then have eq: "toFixed 1 x = - (of_int \<lfloor>(- x) * 10 + 1 / 2\<rfloor> / 10)"
    by (simp add: toFixed_def)
  show ?thesis
    unfolding eq using round_tenth_close[of "- x"] by linarith
next
  case False
  then have eq: "toFixed 1 x = of_int \<lfloor>x * 10 + 1 / 2\<rfloor> / 10"
    by (simp add: toFixed_def)
  show ?thesis
    unfolding eq using round_tenth_close[of x] by linarith
qed

lemma toFixed1_tenths: "\<exists>n::int. toFixed 1 x = of_int n / 10"
  by (cases "x < 0") (auto simp: toFixed_def intro: exI[of _ "- \<lfloor>- (x * 10) + 1 / 2\<rfloor>"])

lemma logged_step:
  assumes "\<bar>y - (x + 50)\<bar> < 1 / 10"
  shows "toFixed 1 y - toFixed 1 x \<in> {499 / 10, 50, 501 / 10}"
proof -
  obtain n m :: int where n: "toFixed 1 x = of_int n / 10" and m: "toFixed 1 y = of_int m / 10"
    using toFixed1_tenths by blast
  have cx: "x - 1 / 20 \<le> of_int n / 10" "of_int n / 10 \<le> x + 1 / 20"
    using toFixed1_close[of x] unfolding n by blast+
  have cy: "y - 1 / 20 \<le> of_int m / 10" "of_int m / 10 \<le> y + 1 / 20"
    using toFixed1_close[of y] unfolding m by blast+
  from assms have d: "y - (x + 50) < 1 / 10" "- (1 / 10) < y - (x + 50)"
    by (simp_all only: abs_less_iff minus_diff_eq) linarith+
  from cx cy d
  have "498 < real_of_int m - real_of_int n" "real_of_int m - real_of_int n < 502"
    by linarith+
  then have "498 < m - n" "m - n < 502"
    by linarith+
  then have "m - n = 499 \<or> m - n = 500 \<or> m - n = 501"
    by linarith
  then have "real_of_int (m - n) = 499 \<or> real_of_int (m - n) = 500 \<or> real_of_int (m - n) = 501"
    by auto
  then show ?thesis
    unfolding n m by (auto simp: field_simps)
qed

subsection \<open>Unfolding the loop\<close>

lemma tti_loop_found:
  "\<not> latency_gt (currentLatency st) threshold \<Longrightarrow> tti_loop ops est eot fuel st = (Found, st)"
  by (cases fuel) (simp_all add: tti_loop.simps)

lemma tti_loop_out_of_fuel:
  "latency_gt (currentLatency st) threshold \<Longrightarrow> tti_loop ops est eot 0 st = (OutOfFuel, st)"
  by (simp add: tti_loop.simps)

lemma tti_loop_exhausted:
  "latency_gt (currentLatency st) threshold \<Longrightarrow>
   eot < fadd ops (fadd ops (startTime st) 50) 500 \<Longrightarrow>
   tti_loop ops est eot (Suc fuel) st =
     (Exhausted, st\<lparr>startTime := fadd ops (startTime st) 50\<rparr>)"
  by (simp add: tti_loop.simps Let_def)

lemma tti_loop_step:
  "latency_gt (currentLatency st) threshold \<Longrightarrow>
   \<not> eot < fadd ops (fadd ops (startTime st) 50) 500 \<Longrightarrow>
   tti_loop ops est eot (Suc fuel) st = tti_loop ops est eot fuel (query_window ops est st)"
  by (simp add: tti_loop.simps Let_def observe_def query_window_def)

text \<open>
  An invariant of the loop body holds in the state the loop ends in, whatever the
  arithmetic and however many passes were made; when the trace is exhausted it holds in
  the state before the last increment of the start time.
\<close>

lemma tti_loop_rule:
  assumes step: "\<And>st. I st \<Longrightarrow> latency_gt (currentLatency st) threshold \<Longrightarrow>
          \<not> eot < fadd ops (fadd ops (startTime st) 50) 500 \<Longrightarrow> I (query_window ops est st)"
  shows "I st \<Longrightarrow> tti_loop ops est eot fuel st = (x, st') \<Longrightarrow>
    (x \<noteq> Exhausted \<longrightarrow> I st') \<and>
    (x = Exhausted \<longrightarrow>
       (\<exists>st0. I st0 \<and> st' = st0\<lparr>startTime := fadd ops (startTime st0) 50\<rparr>))"
proof (induction fuel arbitrary: st)
  case 0
  then show ?case
    by (cases "latency_gt (currentLatency st) threshold")
      (auto simp: tti_loop_found tti_loop_out_of_fuel)
next
  case (Suc fuel)
  show ?case
  proof (cases "latency_gt (currentLatency st) threshold")
    case False
    with Suc.prems show ?thesis by (auto simp: tti_loop_found)
  next
    case gt: True
    show ?thesis
    proof (cases "eot < fadd ops (fadd ops (startTime st) 50) 500")
      case True
      with gt Suc.prems show ?thesis by (auto simp: tti_loop_exhausted)
    next
      case False
      from Suc.prems(2) gt False
      have "tti_loop ops est eot fuel (query_window ops est st) = (x, st')"
        by (simp add: tti_loop_step)
      moreover have "I (query_window ops est st)"
        using Suc.prems(1) gt False by (rule step)
      ultimately show ?thesis by (rule Suc.IH[rotated])
    qed
  qed
qed

text \<open>More passes do not change the end a loop has come to.\<close>

lemma tti_loop_more_fuel:
  "tti_loop ops est eot fuel st = (x, st') \<Longrightarrow> x \<noteq> OutOfFuel \<Longrightarrow>
   tti_loop ops est eot (fuel + k) st = (x, st')"
proof (induction fuel arbitrary: st)
  case 0
  then show ?case
    by (cases "latency_gt (currentLatency st) threshold")
      (auto simp: tti_loop_found tti_loop_out_of_fuel)
next
  case (Suc fuel)
  show ?case
  proof (cases "latency_gt (currentLatency st) threshold")
    case False
    with Suc.prems show ?thesis by (simp add: tti_loop_found)
  next
    case gt: True
    show ?thesis
    proof (cases "eot < fadd ops (fadd ops (startTime st) 50) 500")
      case True
      with gt Suc.prems show ?thesis by (simp add: tti_loop_exhausted)
    next
      case False
      with gt Suc.prems Suc.IH[of "query_window ops est st"] show ?thesis
        by (simp add: tti_loop_step)
    qed
  qed
qed

subsection \<open>What the loop maintains\<close>

lemma tti_loop_queries_in_trace:
  assumes "tti_loop ops est eot fuel st = (x, st')"
    and "\<forall>w \<in> set (queries st). snd w = fadd ops (fst w) 500 \<and> snd w \<le> eot"
  shows "\<forall>w \<in> set (queries st'). snd w = fadd ops (fst w) 500 \<and> snd w \<le> eot"
proof -
  let ?I = "\<lambda>st. \<forall>w \<in> set (queries st). snd w = fadd ops (fst w) 500 \<and> snd w \<le> eot"
  have "(x \<noteq> Exhausted \<longrightarrow> ?I st') \<and>
    (x = Exhausted \<longrightarrow>
       (\<exists>st0. ?I st0 \<and> st' = st0\<lparr>startTime := fadd ops (startTime st0) 50\<rparr>))"
    by (rule tti_loop_rule[where I = ?I, OF _ assms(2) assms(1)])
      (auto simp: query_window_def)
  then show ?thesis by (cases "x = Exhausted") auto
qed

lemma tti_loop_log:
  assumes "tti_loop ops est eot fuel st = (x, st')"
    and "foundLatencies st = map (observe est) (queries st)"
  shows "foundLatencies st' = map (observe est) (queries st')"
proof -
  let ?I = "\<lambda>st. foundLatencies st = map (observe est) (queries st)"
  have "(x \<noteq> Exhausted \<longrightarrow> ?I st') \<and>
    (x = Exhausted \<longrightarrow>
       (\<exists>st0. ?I st0 \<and> st' = st0\<lparr>startTime := fadd ops (startTime st0) 50\<rparr>))"
    by (rule tti_loop_rule[where I = ?I, OF _ assms(2) assms(1)])
      (auto simp: query_window_def)
  then show ?thesis by (cases "x = Exhausted") auto
qed

lemma tti_loop_queries_extend:
  assumes "tti_loop ops est eot fuel st = (x, st')"
  shows "\<exists>ws. queries st' = queries st @ ws"
proof -
  let ?I = "\<lambda>st1. \<exists>ws. queries st1 = queries st @ ws"
  have init: "?I st" by simp
  have "(x \<noteq> Exhausted \<longrightarrow> ?I st') \<and>
    (x = Exhausted \<longrightarrow>
       (\<exists>st0. ?I st0 \<and> st' = st0\<lparr>startTime := fadd ops (startTime st0) 50\<rparr>))"
    by (rule tti_loop_rule[where I = ?I, OF _ init assms(1)])
      (auto simp: query_window_def)
  then show ?thesis by (cases "x = Exhausted") auto
qed

text \<open>Each window starts where the sum of line 99 puts it: at the start before it plus 50.\<close>

lemma tti_loop_chain:
  assumes "tti_loop ops est eot fuel st = (x, st')"
    and "queries st = []"
  shows "\<forall>i. Suc i < length (queries st') \<longrightarrow>
    fst (queries st' ! Suc i) = fadd ops (fst (queries st' ! i)) 50"
proof -
  let ?I = "\<lambda>st1. (\<forall>i. Suc i < length (queries st1) \<longrightarrow>
        fst (queries st1 ! Suc i) = fadd ops (fst (queries st1 ! i)) 50) \<and>
    (queries st1 \<noteq> [] \<longrightarrow> fst (last (queries st1)) = startTime st1)"
  have init: "?I st"
    using assms(2) by simp
  have "(x \<noteq> Exhausted \<longrightarrow> ?I st') \<and>
    (x = Exhausted \<longrightarrow>
       (\<exists>st0. ?I st0 \<and> st' = st0\<lparr>startTime := fadd ops (startTime st0) 50\<rparr>))"
  proof (rule tti_loop_rule[where I = ?I, OF _ init assms(1)])
    fix st1 :: search_state
    assume I: "?I st1"
    let ?q = "queries st1"
    let ?w = "(fadd ops (startTime st1) 50, fadd ops (fadd ops (startTime st1) 50) 500)"
    have "fst ((?q @ [?w]) ! Suc i) = fadd ops (fst ((?q @ [?w]) ! i)) 50"
      if "Suc i < length (?q @ [?w])" for i
    proof (cases "Suc i < length ?q")
      case True
      with I show ?thesis by (simp add: nth_append)
    next
      case False
      with that have i: "Suc i = length ?q" by simp
      then have ne: "?q \<noteq> []" by auto
      from i have "?q ! i = last ?q"
        by (metis ne diff_Suc_1 last_conv_nth)
      with I ne have "fst (?q ! i) = startTime st1" by simp
      with i show ?thesis by (simp add: nth_append)
    qed
    then show "?I (query_window ops est st1)"
      by (simp add: query_window_def)
  qed
  then show ?thesis by (cases "x = Exhausted") auto
qed

subsection \<open>The audit around the loop\<close>

lemma audit_after_fusion:
  "fmp_value r \<noteq> - 1 \<Longrightarrow>
   visuallyReady vp (fadd ops (fMPfull (fmp_timings r)) (navStart (fmp_timings r))) = Some ready \<Longrightarrow>
   audit ops fuel (Inr r) eot vp est ccdf =
     audit_finish ops (fmp_rawValue r) (fsub ops (time ready) (navStart (fmp_timings r))) ccdf
       (tti_loop ops est eot fuel
          (initial_search ops (fmp_rawValue r)
             (fsub ops (time ready) (navStart (fmp_timings r)))))"
  by (simp add: audit_def Let_def)

lemma audit_finish_calls:
  "snd (audit_finish ops f v ccdf (x, st)) =
     map (\<lambda>(s, e). GetRiskToResponsiveness s e) (queries st) @
       (case x of Found \<Rightarrow> [ComputeComplementaryPercentile (toFixed 1 (startTime st))]
        | Exhausted \<Rightarrow> [] | OutOfFuel \<Rightarrow> [])"
  by (cases x) (simp_all add: audit_finish_def Let_def)

lemma audit_finish_queries:
  "GetRiskToResponsiveness s e \<in> set (snd (audit_finish ops f v ccdf (x, st))) \<longleftrightarrow>
   (s, e) \<in> set (queries st)"
  by (cases x) (auto simp: audit_finish_calls)

lemma find_first:
  "\<forall>x \<in> set pre. \<not> P x \<Longrightarrow> P y \<Longrightarrow> find P (pre @ y # post) = Some y"
  by (induction pre) simp_all

subsection \<open>The upstream failure\<close>

text \<open>
  Claim C6. When the meaningful-paint audit reports the value -1, the audit answers with
  the score -1, the raw value -1 and the upstream debug string unchanged. Neither the
  speedline frames nor the estimator nor the distribution are consulted: the result is
  the same for all of them and for every arithmetic, and no external call is made.
\<close>

theorem upstream_failure_short_circuits:
  "fmp_value fmpResult = - 1 \<Longrightarrow>
   audit ops fuel (Inr fmpResult) endOfTraceTime visualProgress est ccdf =
     (Returned
        \<lparr>score = - 1, rawValue = RawNumber (- 1), optimalValue = ''TBD'',
         debugString = Some (Message (fmp_debugString fmpResult)), extendedInfo = None\<rparr>,
      [])"
  by (simp add: audit_def generateError_def generateAuditResult_def meta_optimalValue_def)

theorem upstream_failure_short_circuits_witness:
  "fmp_value (paintA\<lparr>fmp_value := - 1, fmp_debugString := ''no paint''\<rparr>) = - 1 \<and>
   audit binary64 10 (Inr (paintA\<lparr>fmp_value := - 1, fmp_debugString := ''no paint''\<rparr>)) 10000
       framesA (\<lambda>s e. 40) (\<lambda>t. 1 / 2) =
     (Returned
        \<lparr>score = - 1, rawValue = RawNumber (- 1), optimalValue = ''TBD'',
         debugString = Some (Message ''no paint''), extendedInfo = None\<rparr>,
      [])"
  using upstream_failure_short_circuits
    [of "paintA\<lparr>fmp_value := - 1, fmp_debugString := ''no paint''\<rparr>" binary64 10 10000 framesA
      "\<lambda>s e. 40" "\<lambda>t. 1 / 2"]
  by simp

subsection \<open>Running off the end of the trace\<close>

text \<open>
  Claim C1 asks for an explicit failure result, carrying the observation log, when the
  search runs off the end of the trace. The comment of line 102 asks for the same, but
  line 104 is a bare \<^verbatim>\<open>return\<close>: the promise resolves to \<^verbatim>\<open>undefined\<close>. With the
  trace ending at 2500 the first window \<open>[2100, 2600]\<close> does not fit; with the trace
  ending at 2620 the first window is observed, the second does not fit, and the
  observation made is lost with the result. All numbers here are whole, so that no sum
  rounds.
\<close>

theorem exhausted_trace_returns_undefined:
  "audit binary64 10 (Inr paintA) 2500 framesA (\<lambda>s e. 40) (\<lambda>t. 1 / 2) =
     (ReturnedUndefined, []) \<and>
   audit binary64 10 (Inr paintA) 2620 framesA (\<lambda>s e. 60) (\<lambda>t. 1 / 2) =
     (ReturnedUndefined, [GetRiskToResponsiveness 2100 2600])"
  by code_simp

subsection \<open>A latency of exactly 50 ms\<close>

text \<open>
  Claim C3 has the search end only on a latency strictly below 50 ms, as the comments of
  lines 54 and 88 have it. The loop of line 97 goes on while the latency is above 50, so
  a window with a latency of exactly 50 ends the search: here the first window, with the
  interactive time 2100.
\<close>

theorem latency_of_exactly_50_ends_search:
  "audit binary64 10 (Inr paintA) 10000 framesA (\<lambda>s e. 50) (\<lambda>t. 1 / 2) =
     (Returned
        \<lparr>score = 50, rawValue = RawMs 2100, optimalValue = ''TBD'', debugString = None,
         extendedInfo = Some
           \<lparr>ei_timings = \<lparr>ti_fMP = 2000, ti_visuallyReady = 2100, ti_mainThreadAvail = 2100\<rparr>,
            expectedLatencyAtTTI = Finite 50,
            ei_foundLatencies = [\<lparr>obs_startTime = 2100, obs_estLatency = 50\<rparr>]\<rparr>\<rparr>,
      [GetRiskToResponsiveness 2100 2600, ComputeComplementaryPercentile 2100])"
  by code_simp

subsection \<open>A latency just above 50 ms\<close>

text \<open>
  Claim C8 has the latency keep its fractional precision through the comparison with
  the threshold and into the log. Line 109 formats it to two decimals first, and line 116
  hands the formatted value to the loop condition: an estimate of 50.004 ms is logged as
  50 and ends the search, although the comments of lines 54 and 88 ask for a window
  with a latency below 50 ms.
\<close>

theorem latency_50_004_logged_as_50:
  "fst (tti_loop binary64 (\<lambda>s e. fl (12501 / 250)) 10000 10 (initial_search binary64 2000 2100)) =
     Found \<and>
   map obs_estLatency
     (foundLatencies
        (snd (tti_loop binary64 (\<lambda>s e. fl (12501 / 250)) 10000 10
                (initial_search binary64 2000 2100)))) =
     [50] \<and>
   50 < fl (12501 / 250)"
  by code_simp

subsection \<open>The estimator is never asked about a window past the trace\<close>

text \<open>
  Claim C10 has every window handed to the estimator exactly 500 ms wide. The end of a
  window is the sum of line 100, which rounds: from the start 2000.7 the end is the
  double 2500.7, and the two are less than 500 apart.
\<close>

theorem estimator_window_narrower_than_500:
  "GetRiskToResponsiveness (fl (20007 / 10)) (fl (25007 / 10)) \<in>
     set (snd (audit binary64 10 (Inr paintB) 10000 framesB (\<lambda>s e. 40) (\<lambda>t. 1 / 2))) \<and>
   fl (25007 / 10) - fl (20007 / 10) < 500"
  by code_simp

text \<open>
  Claim C10 as amended. Every call the audit makes to the latency estimator, after any
  number of passes of the loop, is for a window whose end is the sum of its start and
  500 as line 100 computes it, and this end is no later than the end of the trace: line
  103 checks it before line 107 hands the window to the estimator.
\<close>

theorem estimator_windows_inside_trace:
  "GetRiskToResponsiveness s e \<in>
     set (snd (audit ops fuel fmp endOfTraceTime visualProgress est ccdf)) \<Longrightarrow>
   e = fadd ops s 500 \<and> e \<le> endOfTraceTime"
proof (cases fmp)
  case (Inl err)
  assume "GetRiskToResponsiveness s e \<in>
    set (snd (audit ops fuel fmp endOfTraceTime visualProgress est ccdf))"
  with Inl show ?thesis by (simp add: audit_def)
next
  case (Inr r)
  assume call: "GetRiskToResponsiveness s e \<in>
    set (snd (audit ops fuel fmp endOfTraceTime visualProgress est ccdf))"
  show ?thesis
  proof (cases "fmp_value r = - 1")
    case True
    with Inr call show ?thesis by (simp add: audit_def)
  next
    case ok: False
    let ?ts = "fadd ops (fMPfull (fmp_timings r)) (navStart (fmp_timings r))"
    show ?thesis
    proof (cases "visuallyReady visualProgress ?ts")
      case None
      with Inr ok call show ?thesis by (simp add: audit_def Let_def)
    next
      case (Some ready)
      let ?s0 = "initial_search ops (fmp_rawValue r)
        (fsub ops (time ready) (navStart (fmp_timings r)))"
      obtain x st' where run: "tti_loop ops est endOfTraceTime fuel ?s0 = (x, st')"
        by (cases "tti_loop ops est endOfTraceTime fuel ?s0")
      from call have "(s, e) \<in> set (queries st')"
        unfolding Inr audit_after_fusion[OF ok Some] run audit_finish_queries .
      moreover have "\<forall>w \<in> set (queries st'). snd w = fadd ops (fst w) 500 \<and> snd w \<le> endOfTraceTime"
        by (rule tti_loop_queries_in_trace[OF run]) (simp add: initial_search_def)
      ultimately show ?thesis by fastforce
    qed
  qed
qed

theorem estimator_windows_inside_trace_witness:
  "GetRiskToResponsiveness 2150 2650 \<in>
     set (snd (audit binary64 10 (Inr paintA) 2700 framesA
                 (\<lambda>s e. if s < 2150 then 60 else 40) (\<lambda>t. 1 / 2))) \<and>
   (2650 :: real) = fadd binary64 2150 500 \<and> (2650 :: real) \<le> 2700"
proof -
  have call: "GetRiskToResponsiveness 2150 2650 \<in>
     set (snd (audit binary64 10 (Inr paintA) 2700 framesA
                 (\<lambda>s e. if s < 2150 then 60 else 40) (\<lambda>t. 1 / 2)))"
    by code_simp
  from estimator_windows_inside_trace[OF call] call show ?thesis by simp
qed

subsection \<open>Signal fusion\<close>

text \<open>
  Claim C4 has the fusion pick the first frame at or after the paint timing plus the
  navigation start, and return an instant that is not before the paint timing. Lines 82
  and 86 round: with a paint at 2000.7 after a navigation start of 1000 the sum of line
  82 is the double 3000.7, which is below the exact sum, so that a frame at 3000.7 is
  picked although it lies before the exact sum and a later frame does not; and the
  relative time of this frame, 2000.6999999999998, is below the 2000.7 of
  \<^verbatim>\<open>fMPfull\<close>, which shows in the fused instant when \<^verbatim>\<open>rawValue\<close> is smaller
  (here 2000).
\<close>

theorem fusion_picks_rounded_instant:
  "visuallyReady (framesB @ [\<lparr>progress = 85, time = 3100\<rparr>])
     (fadd binary64 (fMPfull (fmp_timings paintB)) (navStart (fmp_timings paintB))) =
     Some \<lparr>progress = 85, time = fl (30007 / 10)\<rparr> \<and>
   fl (30007 / 10) < fMPfull (fmp_timings paintB) + navStart (fmp_timings paintB) \<and>
   max 2000 (fsub binary64 (fl (30007 / 10)) (navStart (fmp_timings paintB))) <
     fMPfull (fmp_timings paintB)"
  by code_simp

text \<open>
  Claim C4 as amended. When some frame is at or after the absolute paint instant as line
  82 computes it (the rounded sum of \<^verbatim>\<open>fMPfull\<close> and \<^verbatim>\<open>navStart\<close>) with a progress of
  at least 85, line 83 picks the first such frame, line 86 makes its time relative to
  the navigation start by a rounded subtraction, and the loop is entered one rounded
  step before the later of the paint timing of \<^verbatim>\<open>rawValue\<close> and that relative time.
  This fused instant is at least the paint timing of \<^verbatim>\<open>rawValue\<close> and at least the
  relative time of the frame.
\<close>

theorem signal_fusion_first_sample:
  assumes "fmp_value fmpResult \<noteq> - 1"
    and "\<exists>frame \<in> set visualProgress.
           time frame \<ge>
             fadd ops (fMPfull (fmp_timings fmpResult)) (navStart (fmp_timings fmpResult)) \<and>
           progress frame \<ge> 85"
  shows "\<exists>pre ready post.
     visualProgress = pre @ ready # post \<and>
     (\<forall>frame \<in> set pre.
        \<not> (time frame \<ge>
             fadd ops (fMPfull (fmp_timings fmpResult)) (navStart (fmp_timings fmpResult)) \<and>
           progress frame \<ge> 85)) \<and>
     time ready \<ge> fadd ops (fMPfull (fmp_timings fmpResult)) (navStart (fmp_timings fmpResult)) \<and>
     progress ready \<ge> 85 \<and>
     visuallyReady visualProgress
       (fadd ops (fMPfull (fmp_timings fmpResult)) (navStart (fmp_timings fmpResult))) =
       Some ready \<and>
     audit ops fuel (Inr fmpResult) endOfTraceTime visualProgress est ccdf =
       audit_finish ops (fmp_rawValue fmpResult)
         (fsub ops (time ready) (navStart (fmp_timings fmpResult))) ccdf
         (tti_loop ops est endOfTraceTime fuel
            (initial_search ops (fmp_rawValue fmpResult)
               (fsub ops (time ready) (navStart (fmp_timings fmpResult))))) \<and>
     startTime (initial_search ops (fmp_rawValue fmpResult)
                  (fsub ops (time ready) (navStart (fmp_timings fmpResult)))) =
       fsub ops
         (max (fmp_rawValue fmpResult) (fsub ops (time ready) (navStart (fmp_timings fmpResult))))
         50 \<and>
     max (fmp_rawValue fmpResult) (fsub ops (time ready) (navStart (fmp_timings fmpResult)))
       \<ge> fmp_rawValue fmpResult \<and>
     max (fmp_rawValue fmpResult) (fsub ops (time ready) (navStart (fmp_timings fmpResult)))
       \<ge> fsub ops (time ready) (navStart (fmp_timings fmpResult))"
proof -
  let ?ts = "fadd ops (fMPfull (fmp_timings fmpResult)) (navStart (fmp_timings fmpResult))"
  let ?P = "\<lambda>frame. time frame \<ge> ?ts \<and> progress frame \<ge> 85"
  from assms(2) obtain pre ready post
    where split: "visualProgress = pre @ ready # post" and ready: "?P ready"
      and pre: "\<forall>frame \<in> set pre. \<not> ?P frame"
    using split_list_first_prop[of visualProgress ?P] by blast
  have found: "visuallyReady visualProgress ?ts = Some ready"
    unfolding visuallyReady_def split using pre ready by (rule find_first)
  let ?v = "fsub ops (time ready) (navStart (fmp_timings fmpResult))"
  have run: "audit ops fuel (Inr fmpResult) endOfTraceTime visualProgress est ccdf =
       audit_finish ops (fmp_rawValue fmpResult) ?v ccdf
         (tti_loop ops est endOfTraceTime fuel (initial_search ops (fmp_rawValue fmpResult) ?v))"
    using assms(1) found by (rule audit_after_fusion)
  have start: "startTime (initial_search ops (fmp_rawValue fmpResult) ?v) =
       fsub ops (max (fmp_rawValue fmpResult) ?v) 50"
    by (simp add: initial_search_def)
  from split pre ready found run start show ?thesis
    by (intro exI[of _ pre] exI[of _ ready] exI[of _ post]) simp
qed

theorem signal_fusion_first_sample_witness:
  "fmp_value paintA \<noteq> - 1 \<and>
   (\<exists>frame \<in> set framesA.
      time frame \<ge>
        fadd binary64 (fMPfull (fmp_timings paintA)) (navStart (fmp_timings paintA)) \<and>
      progress frame \<ge> 85) \<and>
   (\<exists>ready.
      visuallyReady framesA
        (fadd binary64 (fMPfull (fmp_timings paintA)) (navStart (fmp_timings paintA))) =
        Some ready \<and>
      ready = \<lparr>progress = 85, time = 3100\<rparr> \<and>
      max (fmp_rawValue paintA) (fsub binary64 (time ready) (navStart (fmp_timings paintA))) =
        2100 \<and>
      max (fmp_rawValue paintA) (fsub binary64 (time ready) (navStart (fmp_timings paintA)))
        \<ge> fmp_rawValue paintA)"
proof -
  have ok: "fmp_value paintA \<noteq> - 1"
    by (simp add: paintA_def)
  have some: "\<exists>frame \<in> set framesA.
      time frame \<ge>
        fadd binary64 (fMPfull (fmp_timings paintA)) (navStart (fmp_timings paintA)) \<and>
      progress frame \<ge> 85"
    by code_simp
  from signal_fusion_first_sample[OF ok some, of 10000 10 "\<lambda>s e. 40" "\<lambda>t. 1 / 2"]
  obtain ready where
    found: "visuallyReady framesA
        (fadd binary64 (fMPfull (fmp_timings paintA)) (navStart (fmp_timings paintA))) =
        Some ready"
    and ge: "max (fmp_rawValue paintA) (fsub binary64 (time ready) (navStart (fmp_timings paintA)))
        \<ge> fmp_rawValue paintA"
    by blast
  have "visuallyReady framesA
        (fadd binary64 (fMPfull (fmp_timings paintA)) (navStart (fmp_timings paintA))) =
      Some \<lparr>progress = 85, time = 3100\<rparr>"
    by code_simp
  with found have ready: "ready = \<lparr>progress = 85, time = 3100\<rparr>"
    by simp
  have "max (fmp_rawValue paintA) (fsub binary64 (time ready) (navStart (fmp_timings paintA))) =
      2100"
    unfolding ready by code_simp
  with ok some found ready ge show ?thesis by blast
qed




subsection \<open>Where the scan starts\<close>

text \<open>
  Claim C2 has the first window start one step before the fused ready instant, at
  \<open>[2050, 2550]\<close> in scenario A. Line 89 does start one step early, but line 99 adds
  the step back before the first window is formed: the first window handed to the
  estimator is \<open>[2100, 2600]\<close>.
\<close>

theorem first_window_not_one_step_early:
  "hd (snd (audit binary64 10 (Inr paintA) 10000 framesA (\<lambda>s e. 40) (\<lambda>t. 1 / 2))) =
     GetRiskToResponsiveness 2100 2600 \<and>
   hd (snd (audit binary64 10 (Inr paintA) 10000 framesA (\<lambda>s e. 40) (\<lambda>t. 1 / 2))) \<noteq>
     GetRiskToResponsiveness 2050 2550"
  by code_simp

text \<open>
  Claim C2 as amended. After a successful fusion with the fused instant \<open>r\<close> (the later
  of the paint timing and the relative time of the frame found), the first window starts
  at \<open>(r - 50) + 50\<close> as lines 89 and 99 compute it and ends at that start plus 500 as
  line 100 computes it. It is handed to the estimator when this end is not after the end
  of the trace; otherwise no window is queried. In the arithmetic of the language the
  start is \<open>r\<close> itself when \<open>r\<close> is a whole number of milliseconds (up to \<open>2\<^sup>5\<^sup>2\<close>).
\<close>

theorem first_window_starts_at_fused_instant:
  assumes "fmp_value fmpResult \<noteq> - 1"
    and "visuallyReady visualProgress
           (fadd ops (fMPfull (fmp_timings fmpResult)) (navStart (fmp_timings fmpResult))) =
         Some ready"
    and "fused =
           max (fmp_rawValue fmpResult) (fsub ops (time ready) (navStart (fmp_timings fmpResult)))"
    and "start = fadd ops (fsub ops fused 50) 50"
  shows "(fadd ops start 500 \<le> endOfTraceTime \<longrightarrow>
           (\<exists>rest. snd (audit ops (Suc fuel) (Inr fmpResult) endOfTraceTime visualProgress est ccdf) =
              GetRiskToResponsiveness start (fadd ops start 500) # rest)) \<and>
         (endOfTraceTime < fadd ops start 500 \<longrightarrow>
           snd (audit ops (Suc fuel) (Inr fmpResult) endOfTraceTime visualProgress est ccdf) = []) \<and>
         (ops = binary64 \<longrightarrow> fused \<in> \<int> \<longrightarrow> \<bar>fused\<bar> \<le> 2 ^ 52 \<longrightarrow> start = fused)"
proof -
  let ?v = "fsub ops (time ready) (navStart (fmp_timings fmpResult))"
  let ?s0 = "initial_search ops (fmp_rawValue fmpResult) ?v"
  have audit: "audit ops (Suc fuel) (Inr fmpResult) endOfTraceTime visualProgress est ccdf =
      audit_finish ops (fmp_rawValue fmpResult) ?v ccdf
        (tti_loop ops est endOfTraceTime (Suc fuel) ?s0)"
    using assms(1,2) by (rule audit_after_fusion)
  have gt: "latency_gt (currentLatency ?s0) threshold"
    by (simp add: initial_search_def)
  have start: "fadd ops (startTime ?s0) 50 = start"
    by (simp add: initial_search_def assms(3,4))
  have q0: "queries ?s0 = []"
    by (simp add: initial_search_def)
  have fits: "\<exists>rest. snd (audit ops (Suc fuel) (Inr fmpResult) endOfTraceTime visualProgress est ccdf) =
      GetRiskToResponsiveness start (fadd ops start 500) # rest"
    if "fadd ops start 500 \<le> endOfTraceTime"
  proof -
    from that start have nb: "\<not> endOfTraceTime < fadd ops (fadd ops (startTime ?s0) 50) 500"
      by simp
    obtain x st' where run: "tti_loop ops est endOfTraceTime fuel (query_window ops est ?s0) = (x, st')"
      by (cases "tti_loop ops est endOfTraceTime fuel (query_window ops est ?s0)")
    from tti_loop_queries_extend[OF run] obtain ws
      where "queries st' = queries (query_window ops est ?s0) @ ws" ..
    then have "queries st' = (start, fadd ops start 500) # ws"
      using q0 start by (simp add: query_window_def)
    then show ?thesis
      unfolding audit tti_loop_step[OF gt nb] run audit_finish_calls by simp
  qed
  have exhausted: "snd (audit ops (Suc fuel) (Inr fmpResult) endOfTraceTime visualProgress est ccdf) = []"
    if "endOfTraceTime < fadd ops start 500"
  proof -
    from that start have "endOfTraceTime < fadd ops (fadd ops (startTime ?s0) 50) 500"
      by simp
    from tti_loop_exhausted[OF gt this] q0 show ?thesis
      unfolding audit by (simp add: audit_finish_def)
  qed
  have whole: "start = fused" if "ops = binary64" "fused \<in> \<int>" "\<bar>fused\<bar> \<le> 2 ^ 52"
  proof -
    from that(2) obtain n where n: "fused = of_int n" by (rule Ints_cases)
    with that(3) have "real_of_int \<bar>n\<bar> \<le> real_of_int (2 ^ 52)" by simp
    then have "\<bar>n\<bar> \<le> 2 ^ 52" by (simp only: of_int_le_iff)
    from binary64_round_trip[OF this] show ?thesis
      unfolding assms(4) that(1) n .
  qed
  from fits exhausted whole show ?thesis by blast
qed

theorem first_window_starts_at_fused_instant_witness:
  "fmp_value paintA \<noteq> - 1 \<and>
   visuallyReady framesA
     (fadd binary64 (fMPfull (fmp_timings paintA)) (navStart (fmp_timings paintA))) =
     Some \<lparr>progress = 85, time = 3100\<rparr> \<and>
   (2100 :: real) = max (fmp_rawValue paintA)
       (fsub binary64 (time \<lparr>progress = 85, time = 3100\<rparr>) (navStart (fmp_timings paintA))) \<and>
   (2100 :: real) = fadd binary64 (fsub binary64 2100 50) 50 \<and>
   fadd binary64 2100 500 \<le> 10000 \<and>
   (\<exists>rest. snd (audit binary64 (Suc 9) (Inr paintA) 10000 framesA (\<lambda>s e. 40) (\<lambda>t. 1 / 2)) =
      GetRiskToResponsiveness 2100 (fadd binary64 2100 500) # rest)"
proof -
  have ok: "fmp_value paintA \<noteq> - 1"
    by (simp add: paintA_def)
  have found: "visuallyReady framesA
     (fadd binary64 (fMPfull (fmp_timings paintA)) (navStart (fmp_timings paintA))) =
     Some \<lparr>progress = 85, time = 3100\<rparr>"
    by code_simp
  have fused: "(2100 :: real) = max (fmp_rawValue paintA)
       (fsub binary64 (time \<lparr>progress = 85, time = 3100\<rparr>) (navStart (fmp_timings paintA)))"
    by code_simp
  have start: "(2100 :: real) = fadd binary64 (fsub binary64 2100 50) 50"
    by code_simp
  have fits: "fadd binary64 2100 500 \<le> 10000"
    by code_simp
  from first_window_starts_at_fused_instant[OF ok found fused start, of 10000 9 "\<lambda>s e. 40" "\<lambda>t. 1 / 2"]
    ok found fused start fits
  show ?thesis by blast
qed

text \<open>
  Two inputs at which the sums round: for the fused instant 0.1 the first window starts
  at 0.10000000000000142, and for the paint at 2000.7 with the trace ending at 2500.7
  the first window \<open>[2000.7, 2500.7]\<close> is queried, although the exact sum of its start
  and 500 is after the end of the trace.
\<close>

lemma first_window_start_rounds:
  "fadd binary64 (fsub binary64 (fl (1 / 10)) 50) 50 = 14073748835533 / 140737488355328 \<and>
   fl (1 / 10) < 14073748835533 / 140737488355328"
  by code_simp

lemma first_window_end_rounds:
  "snd (audit binary64 10 (Inr paintB) (fl (25007 / 10)) framesB (\<lambda>s e. 40) (\<lambda>t. 1 / 2)) =
     [GetRiskToResponsiveness (fl (20007 / 10)) (fl (25007 / 10)),
      ComputeComplementaryPercentile (20007 / 10)] \<and>
   fl (25007 / 10) < fl (20007 / 10) + 500"
  by code_simp

subsection \<open>The scan advances by 50 ms\<close>

text \<open>
  Claim C9 has each window start exactly 50 after the one before, and the logged start
  times increase by exactly 50. The sum of line 99 rounds, and the log holds the start
  times formatted to one decimal (line 111): from the fused instant 1999.05 the second
  window starts \<open>2\<^sup>-\<^sup>4\<^sup>2\<close> more than 50 after the first, and the two are logged as 1999.0
  and 2049.1.
\<close>

theorem logged_starts_50_1_apart:
  "map fst
     (queries
        (snd (tti_loop binary64 (\<lambda>s e. if s < 2040 then 60 else 40) 10000 10
                (initial_search binary64 (fl (199905 / 100)) (fl (199905 / 100)))))) =
     [8791914878022451 / 4398046511104, 2252954300894413 / 1099511627776] \<and>
   (2252954300894413 / 1099511627776 :: real) \<noteq> 8791914878022451 / 4398046511104 + 50 \<and>
   map obs_startTime
     (foundLatencies
        (snd (tti_loop binary64 (\<lambda>s e. if s < 2040 then 60 else 40) 10000 10
                (initial_search binary64 (fl (199905 / 100)) (fl (199905 / 100)))))) =
     [1999, 20491 / 10] \<and>
   (20491 / 10 :: real) \<noteq> 1999 + 50"
  by code_simp

text \<open>
  Claim C9 as amended. Each window start is the sum of the start before it and 50 as
  line 99 computes it. The log holds these starts formatted to one decimal, in the order
  of the windows. Where each of the sums is within a tenth of a millisecond of the exact
  one, two neighbours of the log are 49.9, 50.0 or 50.1 apart; in the arithmetic of the
  language this is so for all start times up to \<open>10\<^sup>1\<^sup>2\<close> ms in magnitude.
\<close>

theorem window_starts_advance_by_50:
  assumes "tti_loop ops est endOfTraceTime fuel (initial_search ops fmpTiming visuallyReadyTiming) =
    (x, st')"
  shows "(\<forall>i. Suc i < length (queries st') \<longrightarrow>
            fst (queries st' ! Suc i) = fadd ops (fst (queries st' ! i)) 50) \<and>
     map obs_startTime (foundLatencies st') = map (\<lambda>w. toFixed 1 (fst w)) (queries st') \<and>
     ((\<forall>w \<in> set (queries st'). \<bar>fadd ops (fst w) 50 - (fst w + 50)\<bar> < 1 / 10) \<longrightarrow>
        (\<forall>i. Suc i < length (foundLatencies st') \<longrightarrow>
            obs_startTime (foundLatencies st' ! Suc i) - obs_startTime (foundLatencies st' ! i)
              \<in> {499 / 10, 50, 501 / 10})) \<and>
     (ops = binary64 \<longrightarrow> (\<forall>w \<in> set (queries st'). \<bar>fst w\<bar> \<le> 10 ^ 12) \<longrightarrow>
        (\<forall>i. Suc i < length (foundLatencies st') \<longrightarrow>
            obs_startTime (foundLatencies st' ! Suc i) - obs_startTime (foundLatencies st' ! i)
              \<in> {499 / 10, 50, 501 / 10}))"
proof -
  let ?s0 = "initial_search ops fmpTiming visuallyReadyTiming"
  let ?q = "queries st'"
  have s0: "queries ?s0 = []" "foundLatencies ?s0 = []"
    by (simp_all add: initial_search_def)
  have steps: "\<forall>i. Suc i < length ?q \<longrightarrow> fst (?q ! Suc i) = fadd ops (fst (?q ! i)) 50"
    using assms s0(1) by (rule tti_loop_chain)
  have log: "foundLatencies st' = map (observe est) ?q"
    by (rule tti_loop_log[OF assms]) (simp add: s0)
  have starts: "map obs_startTime (foundLatencies st') = map (\<lambda>w. toFixed 1 (fst w)) ?q"
    by (simp add: log observe_def)
  have within: "\<forall>i. Suc i < length (foundLatencies st') \<longrightarrow>
      obs_startTime (foundLatencies st' ! Suc i) - obs_startTime (foundLatencies st' ! i)
        \<in> {499 / 10, 50, 501 / 10}"
    if acc: "\<forall>w \<in> set ?q. \<bar>fadd ops (fst w) 50 - (fst w + 50)\<bar> < 1 / 10"
  proof (intro allI impI)
    fix i
    assume "Suc i < length (foundLatencies st')"
    then have i: "Suc i < length ?q" "i < length ?q" by (simp_all add: log)
    from i(2) have "?q ! i \<in> set ?q" by simp
    with acc have "\<bar>fadd ops (fst (?q ! i)) 50 - (fst (?q ! i) + 50)\<bar> < 1 / 10" by blast
    with steps i(1) have "\<bar>fst (?q ! Suc i) - (fst (?q ! i) + 50)\<bar> < 1 / 10" by simp
    then have "toFixed 1 (fst (?q ! Suc i)) - toFixed 1 (fst (?q ! i)) \<in> {499 / 10, 50, 501 / 10}"
      by (rule logged_step)
    with i show "obs_startTime (foundLatencies st' ! Suc i) -
        obs_startTime (foundLatencies st' ! i) \<in> {499 / 10, 50, 501 / 10}"
      by (simp add: log observe_def)
  qed
  have double: "\<forall>i. Suc i < length (foundLatencies st') \<longrightarrow>
      obs_startTime (foundLatencies st' ! Suc i) - obs_startTime (foundLatencies st' ! i)
        \<in> {499 / 10, 50, 501 / 10}"
    if "ops = binary64" "\<forall>w \<in> set ?q. \<bar>fst w\<bar> \<le> 10 ^ 12"
  proof (rule within)
    show "\<forall>w \<in> set ?q. \<bar>fadd ops (fst w) 50 - (fst w + 50)\<bar> < 1 / 10"
    proof
      fix w
      assume "w \<in> set ?q"
      with that(2) have "\<bar>fst w\<bar> \<le> 10 ^ 12" by blast
      then show "\<bar>fadd ops (fst w) 50 - (fst w + 50)\<bar> < 1 / 10"
        unfolding that(1) by (rule binary64_add_50_accurate)
    qed
  qed
  from steps starts within double show ?thesis by blast
qed

theorem window_starts_advance_by_50_witness:
  "tti_loop binary64 (\<lambda>s e. if s < 2040 then 60 else 40) 10000 10
     (initial_search binary64 (fl (199905 / 100)) (fl (199905 / 100))) =
     (Found,
      \<lparr>startTime = 2252954300894413 / 1099511627776, currentLatency = Finite 40,
       foundLatencies =
         [\<lparr>obs_startTime = 1999, obs_estLatency = 60\<rparr>,
          \<lparr>obs_startTime = 20491 / 10, obs_estLatency = 40\<rparr>],
       queries =
         [(8791914878022451 / 4398046511104, 2747734533393613 / 1099511627776),
          (2252954300894413 / 1099511627776, 2802710114782413 / 1099511627776)]\<rparr>) \<and>
   \<bar>8791914878022451 / 4398046511104 :: real\<bar> \<le> 10 ^ 12 \<and>
   \<bar>2252954300894413 / 1099511627776 :: real\<bar> \<le> 10 ^ 12 \<and>
   (2252954300894413 / 1099511627776 :: real) =
     fadd binary64 (8791914878022451 / 4398046511104) 50 \<and>
   (20491 / 10 :: real) - 1999 \<in> {499 / 10, 50, 501 / 10}"
proof -
  let ?st = "\<lparr>startTime = 2252954300894413 / 1099511627776, currentLatency = Finite 40,
       foundLatencies =
         [\<lparr>obs_startTime = 1999, obs_estLatency = 60\<rparr>,
          \<lparr>obs_startTime = 20491 / 10, obs_estLatency = 40\<rparr>],
       queries =
         [(8791914878022451 / 4398046511104, 2747734533393613 / 1099511627776),
          (2252954300894413 / 1099511627776, 2802710114782413 / 1099511627776)]\<rparr>"
  have run: "tti_loop binary64 (\<lambda>s e. if s < 2040 then 60 else 40) 10000 10
     (initial_search binary64 (fl (199905 / 100)) (fl (199905 / 100))) = (Found, ?st)"
    by code_simp
  have small: "\<forall>w \<in> set (queries ?st). \<bar>fst w\<bar> \<le> 10 ^ 12"
    by simp
  note th = window_starts_advance_by_50[OF run]
  from th have "fst (queries ?st ! Suc 0) = fadd binary64 (fst (queries ?st ! 0)) 50"
    by simp
  then have step: "(2252954300894413 / 1099511627776 :: real) =
     fadd binary64 (8791914878022451 / 4398046511104) 50"
    by simp
  from th small have "obs_startTime (foundLatencies ?st ! Suc 0) -
      obs_startTime (foundLatencies ?st ! 0) \<in> {499 / 10, 50, 501 / 10}"
    by simp
  then have logged: "(20491 / 10 :: real) - 1999 \<in> {499 / 10, 50, 501 / 10}"
    by simp
  from run step logged show ?thesis by simp
qed

subsection \<open>The score\<close>




end
